theory Spec2Isabelle
  imports Main "HOL-Library.AList"
begin

section \<open>JavaScript values\<close>

text \<open>
  The service methods of the database mixin work on untyped JavaScript values. The
  model keeps the values the methods distinguish: \<open>undefined\<close>, \<open>null\<close>, booleans,
  numbers, strings, arrays and plain objects. Numbers are the integers and \<open>NaN\<close>
  (the arithmetic of the source is exact on integers of magnitude below \<open>2^53\<close>;
  fractions and infinities are not represented). An object is the list of its own
  properties; properties inherited from a prototype are not modelled, and the order of
  the list carries no meaning beyond the first entry of a key being the property.
\<close>

datatype jsval =
    Undefined
  | Null
  | Bool bool
  | Num int
  | NaN
  | Str string
  | Arr "jsval list"
  | Obj "(string \<times> jsval) list"

type_synonym obj = "(string \<times> jsval) list"

text \<open>\<open>o[k]\<close>: a missing property reads as \<open>undefined\<close>.\<close>

definition obj_get :: "obj \<Rightarrow> string \<Rightarrow> jsval" where
  "obj_get p k = (case map_of p k of None \<Rightarrow> Undefined | Some v \<Rightarrow> v)"

text \<open>\<open>k in o\<close>, for own properties.\<close>

definition obj_has :: "obj \<Rightarrow> string \<Rightarrow> bool" where
  "obj_has p k = (map_of p k \<noteq> None)"

text \<open>\<open>o[k] = v\<close>: overwrites the property when it exists, adds it otherwise.\<close>

definition obj_set :: "string \<Rightarrow> jsval \<Rightarrow> obj \<Rightarrow> obj" where
  "obj_set k v p = AList.update k v p"

text \<open>\<open>delete o[k]\<close>.\<close>

definition obj_delete :: "string \<Rightarrow> obj \<Rightarrow> obj" where
  "obj_delete k p = AList.delete k p"

text \<open>Truthiness, as \<open>if (v)\<close> and \<open>!v\<close> read a value.\<close>

fun truthy :: "jsval \<Rightarrow> bool" where
  "truthy Undefined = False"
| "truthy Null = False"
| "truthy (Bool b) = b"
| "truthy (Num i) = (i \<noteq> 0)"
| "truthy NaN = False"
| "truthy (Str s) = (s \<noteq> [])"
| "truthy (Arr xs) = True"
| "truthy (Obj ps) = True"

definition digit_chars :: string where
  "digit_chars = ''0123456789''"

fun digits :: "nat \<Rightarrow> string" where
  "digits n =
     (if n < 10 then [digit_chars ! n]
      else digits (n div 10) @ [digit_chars ! (n mod 10)])"

definition is_space :: "char \<Rightarrow> bool" where
  "is_space c = (c \<in> set [CHR '' '', CHR 0x09, CHR 0x0A, CHR 0x0B, CHR 0x0C, CHR 0x0D])"

definition trim :: "string \<Rightarrow> string" where
  "trim s = rev (dropWhile is_space (rev (dropWhile is_space s)))"

definition is_digit :: "char \<Rightarrow> bool" where
  "is_digit c = (c \<in> set digit_chars)"

definition digit_val :: "char \<Rightarrow> int" where
  "digit_val c = int (of_char c) - 48"

definition decimal :: "string \<Rightarrow> int" where
  "decimal ds = foldl (\<lambda>a c. 10 * a + digit_val c) 0 ds"

text \<open>
  \<open>Number(s)\<close> on a string: surrounding white space is dropped, the empty string is
  \<open>0\<close>, an optionally signed run of decimal digits is that integer, and anything else
  is \<open>NaN\<close> in this model (a literal with a fraction, an exponent or a radix prefix
  denotes a number outside the integers).
\<close>

definition Number :: "string \<Rightarrow> jsval" where
  "Number s =
     (case trim s of
        [] \<Rightarrow> Num 0
      | c # ds \<Rightarrow>
          if list_all is_digit (c # ds) then Num (decimal (c # ds))
          else if c = CHR ''+'' \<and> ds \<noteq> [] \<and> list_all is_digit ds then Num (decimal ds)
          else if c = CHR ''-'' \<and> ds \<noteq> [] \<and> list_all is_digit ds then Num (- decimal ds)
          else NaN)"

text \<open>\<open>String(v)\<close>, which is also how a value becomes a property key.\<close>

fun ToString :: "jsval \<Rightarrow> string" and join_elems :: "jsval list \<Rightarrow> string" where
  "ToString Undefined = ''undefined''"
| "ToString Null = ''null''"
| "ToString (Bool b) = (if b then ''true'' else ''false'')"
| "ToString (Num i) = (if i < 0 then CHR ''-'' # digits (nat (- i)) else digits (nat i))"
| "ToString NaN = ''NaN''"
| "ToString (Str s) = s"
| "ToString (Arr xs) = join_elems xs"
| "ToString (Obj ps) = ''[object Object]''"
| "join_elems [] = []"
| "join_elems (x # xs) =
     (if x = Undefined \<or> x = Null then [] else ToString x) @
     (if xs = [] then [] else CHR '','' # join_elems xs)"





text \<open>
  What the methods throw, and what their collaborators may throw. \<open>Unmodelled\<close> marks
  the few places where the source does something the values of the model cannot express.
\<close>

datatype error =
    SyntaxError
  | TypeError
  | MissingId obj
  | EntityNotFound jsval
  | ValidationFailed jsval
  | Thrown jsval
  | Unmodelled

section \<open>Sanitizing parameters\<close>

text \<open>The options of the mixin that \<open>sanitizeParams\<close> and \<open>_connect\<close> read.\<close>

record mixinOpts =
  defaultPageSize :: int
  maxLimit :: int
  autoReconnect :: bool

record sanitizeOpts =
  removeLimit :: bool
  list :: bool

definition noOpts :: sanitizeOpts where
  "noOpts = \<lparr>removeLimit = False, list = False\<rparr>"











section \<open>Scopes\<close>

text \<open>
  \<open>_.defaultsDeep(object, source)\<close> of lodash on the values of the model: a property
  of the source is taken where the object has none or has \<open>undefined\<close>, two plain
  objects are merged property by property and two arrays index by index, and in every
  other case the object's value stays. (An array met by a plain object is kept as it
  is; lodash would copy the index properties across.) \<open>_.cloneDeep\<close> is the identity
  on values.
\<close>

fun defaultsDeep :: "jsval \<Rightarrow> jsval \<Rightarrow> jsval"
  and defaultProps :: "obj \<Rightarrow> obj \<Rightarrow> obj"
  and defaultElems :: "jsval list \<Rightarrow> jsval list \<Rightarrow> jsval list" where
  "defaultsDeep (Obj ps) (Obj qs) = Obj (defaultProps ps qs)"
| "defaultsDeep (Arr xs) (Arr ys) = Arr (defaultElems xs ys)"
| "defaultsDeep Undefined w = w"
| "defaultsDeep v w = v"
| "defaultProps ps [] = ps"
| "defaultProps ps ((k, w) # qs) =
     defaultProps (obj_set k (defaultsDeep (obj_get ps k) w) ps) qs"
| "defaultElems xs [] = xs"
| "defaultElems [] ys = ys"
| "defaultElems (x # xs) (y # ys) = defaultsDeep x y # defaultElems xs ys"

text \<open>
  A registered scope is a function of the filter and the context, which may throw, or a
  value: a filter fragment, or something falsy.
\<close>

datatype scope =
    ScopeFn "jsval \<Rightarrow> jsval \<Rightarrow> error + jsval"
  | ScopeVal jsval

text \<open>
  \<open>this.settings\<close>: \<open>defaultScopes\<close> is \<open>None\<close> when the setting is not given, and
  \<open>scopes\<close> maps a name to what is registered under it.
\<close>

record settings =
  defaultScopes :: "jsval list option"
  scopes :: "string \<Rightarrow> scope option"

text \<open>The \<open>reduce\<close> of \<open>_applyScopes\<close> over the scope names.\<close>

fun reduceScopes :: "settings \<Rightarrow> jsval \<Rightarrow> jsval list \<Rightarrow> jsval \<Rightarrow> error + jsval" where
  "reduceScopes se ctx [] query = Inr query"
| "reduceScopes se ctx (scopeName # rest) query =
     (case scopes se (ToString scopeName) of
        None \<Rightarrow> reduceScopes se ctx rest query
      | Some (ScopeFn f) \<Rightarrow>
          (case f query ctx of Inl e \<Rightarrow> Inl e | Inr q \<Rightarrow> reduceScopes se ctx rest q)
      | Some (ScopeVal v) \<Rightarrow>
          if \<not> truthy v then reduceScopes se ctx rest query
          else reduceScopes se ctx rest (defaultsDeep query v))"

text \<open>
  The variable \<open>scopes\<close> of \<open>_applyScopes\<close>, with the empty list where the source
  has \<open>null\<close> or \<open>undefined\<close>: both fail the test \<open>scopes && scopes.length > 0\<close>.
\<close>

definition activeScopes :: "settings \<Rightarrow> obj \<Rightarrow> jsval list" where
  "activeScopes se params =
     (let scope = obj_get params ''scope'' in
      if truthy scope then (case scope of Arr names \<Rightarrow> names | _ \<Rightarrow> [scope])
      else if scope \<noteq> Bool False then
        (case defaultScopes se of None \<Rightarrow> [] | Some names \<Rightarrow> names)
      else [])"

text \<open>\<open>_applyScopes(params, ctx)\<close>\<close>

definition applyScopes :: "settings \<Rightarrow> obj \<Rightarrow> jsval \<Rightarrow> error + obj" where
  "applyScopes se params ctx =
     (if activeScopes se params \<noteq> [] then
        (case reduceScopes se ctx (activeScopes se params)
                (if truthy (obj_get params ''query'') then obj_get params ''query''
                 else Obj []) of
           Inl e \<Rightarrow> Inl e
         | Inr query \<Rightarrow> Inr (obj_set ''query'' query params))
      else Inr params)"

text \<open>Settings with one default scope, a filter fragment, for the examples.\<close>

definition demoSettings :: settings where
  "demoSettings = \<lparr>defaultScopes = Some [Str ''active''],
     scopes = [''active'' \<mapsto> ScopeVal (Obj [(''status'', Num 1)])]\<rparr>"

section \<open>The service and its collaborators\<close>

text \<open>
  \<open>this.$primaryField\<close>: the name of the id field in params, the name of its column in
  the store, and whether ids are encoded for the caller.
\<close>

record primaryField =
  name :: string
  columnName :: string
  secure :: bool

text \<open>
  A promise that settles, as far as \<open>disconnectAll\<close> can see it: the logical time at
  which it settles (later is larger) and, when it rejects, what with.
\<close>

record promise =
  settledAt :: nat
  rejection :: "error option"

text \<open>
  What a method does to its collaborators is kept in a log: the invocations of
  \<open>_connect\<close> and of \<open>adapter.disconnect\<close>, the adapter calls with their arguments
  (the adapter is the number of its instance), the validations with the type and the
  payload, the cache broadcast and the \<open>entityChanged\<close> hook.
\<close>

datatype event =
    Connect nat
  | Disconnect nat
  | Find nat obj
  | Validate string obj
  | UpdateById nat jsval obj "bool option"
  | ReplaceById nat jsval obj
  | RemoveById nat jsval
  | Broadcast string
  | EntityChanged string jsval

text \<open>
  The service the methods are mixed into, with everything they call but do not define:
  the hooks \<open>getAdapterByContext\<close>, \<open>encodeID\<close>, \<open>decodeID\<close> and \<open>entityChanged\<close>
  (which may throw), \<open>validateParams\<close> and \<open>transformResult\<close> of the other mixins, the
  event name of \<open>cacheOpts\<close> (\<open>None\<close> when the cache is off or has no name), and the
  adapter: \<open>'db\<close> is what the stores behind all adapters hold, \<open>find\<close> reads it, the
  three writes return the new store with their result. \<open>adapter_connect\<close> lists the
  errors \<open>adapter.connect()\<close> throws before its first success, so a connect that never
  succeeds is not represented; \<open>adapter_disconnect\<close> is \<open>None\<close> for an adapter without
  a \<open>disconnect\<close> function. \<open>find\<close> returns \<open>None\<close> for \<open>null\<close> or \<open>undefined\<close>.
\<close>

record 'db service =
  primaryField :: primaryField
  softDelete :: bool
  settings :: settings
  mixin :: mixinOpts
  cacheEventName :: "string option"
  getAdapterByContext :: "jsval \<Rightarrow> string"
  encodeID :: "jsval \<Rightarrow> jsval"
  decodeID :: "jsval \<Rightarrow> jsval"
  validateParams :: "jsval \<Rightarrow> obj \<Rightarrow> string \<Rightarrow> jsval \<Rightarrow> error + obj"
  transformResult :: "nat \<Rightarrow> jsval \<Rightarrow> obj \<Rightarrow> jsval \<Rightarrow> error + jsval"
  entityChanged :: "string \<Rightarrow> jsval \<Rightarrow> jsval \<Rightarrow> error option"
  adapter_connect :: "nat \<Rightarrow> error list"
  adapter_disconnect :: "nat \<Rightarrow> promise option"
  adapter_find :: "nat \<Rightarrow> 'db \<Rightarrow> obj \<Rightarrow> error + jsval list option"
  adapter_updateById :: "nat \<Rightarrow> 'db \<Rightarrow> jsval \<Rightarrow> obj \<Rightarrow> bool option \<Rightarrow> (error + jsval) \<times> 'db"
  adapter_replaceById :: "nat \<Rightarrow> 'db \<Rightarrow> jsval \<Rightarrow> obj \<Rightarrow> (error + jsval) \<times> 'db"
  adapter_removeById :: "nat \<Rightarrow> 'db \<Rightarrow> jsval \<Rightarrow> (error + jsval) \<times> 'db"

text \<open>
  The state the methods share: the map \<open>this.adapters\<close> from the tenant's hash to the
  adapter instance, in insertion order; the number of instances created so far, which is
  the number the next one gets; the store; and the log.
\<close>

record 'db state =
  adapters :: "(string \<times> nat) list"
  created :: nat
  db :: 'db
  events :: "event list"

definition initialState :: "'db \<Rightarrow> 'db state" where
  "initialState d = \<lparr>adapters = [], created = 0, db = d, events = []\<rparr>"

text \<open>
  An asynchronous method, run to its end: from a state to the value it returns, or the
  error it throws, and the state it leaves. That every awaited promise settles is assumed.
\<close>

type_synonym ('db, 'a) action = "'db state \<Rightarrow> (error + 'a) \<times> 'db state"

definition returnM :: "'a \<Rightarrow> ('db, 'a) action" where
  "returnM x st = (Inr x, st)"

definition throwM :: "error \<Rightarrow> ('db, 'a) action" where
  "throwM e st = (Inl e, st)"

definition liftM :: "error + 'a \<Rightarrow> ('db, 'a) action" where
  "liftM r st = (r, st)"

definition bindM :: "('db, 'a) action \<Rightarrow> ('a \<Rightarrow> ('db, 'b) action) \<Rightarrow> ('db, 'b) action" where
  "bindM m f st = (case m st of (Inl e, st') \<Rightarrow> (Inl e, st') | (Inr x, st') \<Rightarrow> f x st')"

definition logM :: "event \<Rightarrow> ('db, unit) action" where
  "logM ev st = (Inr (), st\<lparr>events := events st @ [ev]\<rparr>)"

subsection \<open>The adapter registry\<close>

text \<open>
  \<open>_connect(adapter)\<close>: the loop \<open>connecting\<close> over the errors of the attempts. With
  \<open>autoReconnect\<close> an attempt that fails is followed by the next one (the delay of one
  second is not modelled), without it the first error rejects the promise.
\<close>

fun connecting :: "bool \<Rightarrow> error list \<Rightarrow> error + unit" where
  "connecting auto [] = Inr ()"
| "connecting auto (err # errs) = (if auto then connecting auto errs else Inl err)"

definition connect :: "'db service \<Rightarrow> nat \<Rightarrow> error + unit" where
  "connect svc adapter = connecting (autoReconnect (mixin svc)) (adapter_connect svc adapter)"

text \<open>
  \<open>getAdapter(ctx)\<close> up to its \<open>await\<close>: the adapter the call is going to return, and
  whether it is a new one, whose \<open>_connect\<close> has been invoked and is awaited. Creating
  the adapter (\<open>Adapters.resolve\<close>, \<open>adapter.init\<close>, taken not to throw) is taking
  the next instance number.
\<close>

definition getAdapterSync :: "'db service \<Rightarrow> jsval \<Rightarrow> 'db state \<Rightarrow> (nat \<times> bool) \<times> 'db state" where
  "getAdapterSync svc ctx st =
     (let hash = getAdapterByContext svc ctx in
      case map_of (adapters st) hash of
        Some adapter \<Rightarrow> ((adapter, False), st)
      | None \<Rightarrow>
          (let adapter = created st in
           ((adapter, True),
            st\<lparr>adapters := AList.update hash adapter (adapters st),
               created := Suc adapter,
               events := events st @ [Connect adapter]\<rparr>)))"

text \<open>\<open>getAdapter(ctx)\<close>, awaited.\<close>

definition getAdapter :: "'db service \<Rightarrow> jsval \<Rightarrow> ('db, nat) action" where
  "getAdapter svc ctx st =
     (case getAdapterSync svc ctx st of
        ((adapter, awaits), st') \<Rightarrow>
          if awaits then
            (case connect svc adapter of
               Inl e \<Rightarrow> (Inl e, st')
             | Inr u \<Rightarrow> (Inr adapter, st'))
          else (Inr adapter, st'))"




text \<open>
  Calls of \<open>getAdapter\<close> that overlap. A step is either a caller entering
  \<open>getAdapter\<close>, which runs it up to the \<open>await\<close> (JavaScript runs that part without
  interruption), or the resumption of the \<open>i\<close>-th waiting call when its \<open>_connect\<close>
  has settled. A call that found its adapter returns at once.
\<close>

datatype call = Call jsval | Resume nat

record 'db sched =
  shared :: "'db state"
  waiting :: "(jsval \<times> nat) list"
  returned :: "(jsval \<times> (error + nat)) list"

definition step :: "'db service \<Rightarrow> 'db sched \<Rightarrow> call \<Rightarrow> 'db sched" where
  "step svc sc c =
     (case c of
        Call ctx \<Rightarrow>
          (case getAdapterSync svc ctx (shared sc) of
             ((adapter, awaits), st') \<Rightarrow>
               if awaits then sc\<lparr>shared := st', waiting := waiting sc @ [(ctx, adapter)]\<rparr>
               else sc\<lparr>shared := st', returned := returned sc @ [(ctx, Inr adapter)]\<rparr>)
      | Resume i \<Rightarrow>
          if i < length (waiting sc) then
            (case waiting sc ! i of
               (ctx, adapter) \<Rightarrow>
                 sc\<lparr>waiting := take i (waiting sc) @ drop (Suc i) (waiting sc),
                    returned := returned sc @
                      [(ctx, case connect svc adapter of Inl e \<Rightarrow> Inl e | Inr u \<Rightarrow> Inr adapter)]\<rparr>)
          else sc)"

definition run :: "'db service \<Rightarrow> call list \<Rightarrow> 'db sched \<Rightarrow> 'db sched" where
  "run svc cs sc = foldl (step svc) sc cs"

definition idle :: "'db \<Rightarrow> 'db sched" where
  "idle d = \<lparr>shared = initialState d, waiting = [], returned = []\<rparr>"

subsection \<open>Identifiers\<close>

text \<open>
  The options of a call: \<open>transform\<close> is false for \<open>transform: false\<close> only, and
  \<open>secureID\<close> is \<open>None\<close> when the option is not given.
\<close>

record opts =
  transform :: bool
  throwIfNotExist :: bool
  secureID :: "bool option"

text \<open>\<open>_getIDFromParams(params, throwIfNotExist)\<close> and \<open>_sanitizeID(id, opts)\<close>.\<close>

definition getIDFromParams :: "'db service \<Rightarrow> obj \<Rightarrow> bool \<Rightarrow> error + jsval" where
  "getIDFromParams svc params throwIfMissing =
     (let idv = obj_get params (name (primaryField svc)) in
      if throwIfMissing \<and> (idv = Undefined \<or> idv = Null) then Inl (MissingId params)
      else Inr idv)"

definition sanitizeID :: "'db service \<Rightarrow> jsval \<Rightarrow> opts \<Rightarrow> jsval" where
  "sanitizeID svc idv opts =
     (case secureID opts of
        Some s \<Rightarrow> if s then decodeID svc idv else idv
      | None \<Rightarrow> if secure (primaryField svc) then decodeID svc idv else idv)"

text \<open>
  \<open>v[k] = w\<close>, \<open>v[k]\<close> and \<open>v[0]\<close> on a value, in strict mode. Properties of arrays
  other than their elements, and the properties of strings, are outside the model:
  touching them is the error \<open>Unmodelled\<close>.
\<close>

fun setProp :: "jsval \<Rightarrow> string \<Rightarrow> jsval \<Rightarrow> error + jsval" where
  "setProp (Obj ps) k v = Inr (Obj (obj_set k v ps))"
| "setProp (Arr xs) k v = Inl Unmodelled"
| "setProp w k v = Inl TypeError"

fun getProp :: "jsval \<Rightarrow> string \<Rightarrow> error + jsval" where
  "getProp (Obj ps) k = Inr (obj_get ps k)"
| "getProp Undefined k = Inl TypeError"
| "getProp Null k = Inl TypeError"
| "getProp (Arr xs) k = Inl Unmodelled"
| "getProp (Str s) k = Inl Unmodelled"
| "getProp w k = Inr Undefined"

fun index0 :: "jsval \<Rightarrow> error + jsval" where
  "index0 (Arr []) = Inr Undefined"
| "index0 (Arr (x # xs)) = Inr x"
| "index0 (Obj ps) = Inr (obj_get ps ''0'')"
| "index0 (Str []) = Inr Undefined"
| "index0 (Str (c # cs)) = Inr (Str [c])"
| "index0 Undefined = Inl TypeError"
| "index0 Null = Inl TypeError"
| "index0 w = Inr Undefined"

fun isArray :: "jsval \<Rightarrow> bool" where
  "isArray (Arr xs) = True"
| "isArray w = False"

subsection \<open>Resolving entities\<close>

text \<open>
  The first part of \<open>resolveEntities\<close>, up to the adapter: the plan that goes to
  \<open>adapter.find\<close>. The ids are decoded, the scopes applied to a copy of the params and
  the condition on the primary column written into the filter.
\<close>

definition resolveParams :: "'db service \<Rightarrow> jsval \<Rightarrow> obj \<Rightarrow> opts \<Rightarrow> error + obj" where
  "resolveParams svc ctx params opts =
     (case getIDFromParams svc params True of
        Inl e \<Rightarrow> Inl e
      | Inr idv \<Rightarrow>
         (case applyScopes (settings svc) params ctx of
            Inl e \<Rightarrow> Inl e
          | Inr p \<Rightarrow>
             (let p = (if \<not> truthy (obj_get p ''query'') then obj_set ''query'' (Obj []) p else p);
                  idField = columnName (primaryField svc)
              in case setProp (obj_get p ''query'') idField
                        (case idv of
                           Arr ids \<Rightarrow> Obj [(''$in'', Arr (map (\<lambda>i. sanitizeID svc i opts) ids))]
                         | _ \<Rightarrow> sanitizeID svc idv opts) of
                   Inl e \<Rightarrow> Inl e
                 | Inr query \<Rightarrow> Inr (obj_set ''query'' query p))))"

definition findM :: "'db service \<Rightarrow> nat \<Rightarrow> obj \<Rightarrow> ('db, jsval list option) action" where
  "findM svc adapter params st =
     (adapter_find svc adapter (db st) params, st\<lparr>events := events st @ [Find adapter params]\<rparr>)"

text \<open>
  The mapping step of \<open>resolveEntities\<close>: the key of an untransformed entity, and the
  \<open>reduce\<close> over the documents, which reads the entity at the same index.
\<close>

definition idKey :: "'db service \<Rightarrow> jsval \<Rightarrow> error + string" where
  "idKey svc entity =
     (case getProp entity (columnName (primaryField svc)) of
        Inl e \<Rightarrow> Inl e
      | Inr idv \<Rightarrow> Inr (ToString (if secure (primaryField svc) then encodeID svc idv else idv)))"

fun reduceMapping :: "'db service \<Rightarrow> jsval list \<Rightarrow> jsval list \<Rightarrow> obj \<Rightarrow> error + obj" where
  "reduceMapping svc us [] m = Inr m"
| "reduceMapping svc [] (doc # docs) m = Inl TypeError"
| "reduceMapping svc (u # us) (doc # docs) m =
     (case idKey svc u of
        Inl e \<Rightarrow> Inl e
      | Inr k \<Rightarrow> reduceMapping svc us docs (obj_set k doc m))"

definition mapping :: "'db service \<Rightarrow> jsval list \<Rightarrow> jsval \<Rightarrow> error + jsval" where
  "mapping svc unTransformedRes result =
     (case result of
        Arr docs \<Rightarrow>
          (case reduceMapping svc unTransformedRes docs [] of
             Inl e \<Rightarrow> Inl e
           | Inr m \<Rightarrow> Inr (Obj m))
      | _ \<Rightarrow> Inl TypeError)"

text \<open>\<open>resolveEntities(ctx, params, opts)\<close>\<close>

definition resolveEntities :: "'db service \<Rightarrow> jsval \<Rightarrow> obj \<Rightarrow> opts \<Rightarrow> ('db, jsval) action" where
  "resolveEntities svc ctx params opts =
     (case resolveParams svc ctx params opts of
        Inl e \<Rightarrow> throwM e
      | Inr p \<Rightarrow>
          bindM (getAdapter svc ctx) (\<lambda>adapter.
          bindM (findM svc adapter p) (\<lambda>found.
            if (found = None \<or> found = Some []) \<and> throwIfNotExist opts then
              throwM (EntityNotFound (obj_get params (name (primaryField svc))))
            else
              (case found of
                 None \<Rightarrow> throwM TypeError
               | Some unTransformedRes \<Rightarrow>
                   bindM (if transform opts
                          then liftM (transformResult svc adapter (Arr unTransformedRes) p ctx)
                          else returnM (Arr unTransformedRes)) (\<lambda>result.
                     if obj_get p ''mapping'' = Bool True then
                       liftM (mapping svc unTransformedRes result)
                     else if \<not> isArray (obj_get params (name (primaryField svc))) then
                       liftM (index0 result)
                     else returnM result)))))"

text \<open>
  The caller's params after \<open>resolveEntities\<close> has returned. The method works on a
  shallow copy, so when no scope is applied a filter object the caller passed is the
  one that received the id condition.
\<close>

definition afterResolve :: "'db service \<Rightarrow> jsval \<Rightarrow> obj \<Rightarrow> opts \<Rightarrow> obj" where
  "afterResolve svc ctx params opts =
     (case resolveParams svc ctx params opts of
        Inl e \<Rightarrow> params
      | Inr p \<Rightarrow>
          if activeScopes (settings svc) params = [] \<and> truthy (obj_get params ''query'')
          then obj_set ''query'' (obj_get p ''query'') params
          else params)"

subsection \<open>Changing entities\<close>

text \<open>The options \<open>{transform: false, throwIfNotExist: true}\<close>.\<close>

definition existing :: opts where
  "existing = \<lparr>transform = False, throwIfNotExist = True, secureID = None\<rparr>"

text \<open>The calls of the collaborators, with their entry in the log.\<close>

definition validateM :: "'db service \<Rightarrow> jsval \<Rightarrow> obj \<Rightarrow> string \<Rightarrow> jsval \<Rightarrow> ('db, obj) action" where
  "validateM svc ctx params type oldEntity st =
     (validateParams svc ctx params type oldEntity,
      st\<lparr>events := events st @ [Validate type params]\<rparr>)"

definition updateByIdM ::
  "'db service \<Rightarrow> nat \<Rightarrow> jsval \<Rightarrow> obj \<Rightarrow> bool option \<Rightarrow> ('db, jsval) action" where
  "updateByIdM svc adapter idv params raw st =
     (case adapter_updateById svc adapter (db st) idv params raw of
        (r, d) \<Rightarrow> (r, st\<lparr>db := d, events := events st @ [UpdateById adapter idv params raw]\<rparr>))"

definition replaceByIdM :: "'db service \<Rightarrow> nat \<Rightarrow> jsval \<Rightarrow> obj \<Rightarrow> ('db, jsval) action" where
  "replaceByIdM svc adapter idv params st =
     (case adapter_replaceById svc adapter (db st) idv params of
        (r, d) \<Rightarrow> (r, st\<lparr>db := d, events := events st @ [ReplaceById adapter idv params]\<rparr>))"

definition removeByIdM :: "'db service \<Rightarrow> nat \<Rightarrow> jsval \<Rightarrow> ('db, jsval) action" where
  "removeByIdM svc adapter idv st =
     (case adapter_removeById svc adapter (db st) idv of
        (r, d) \<Rightarrow> (r, st\<lparr>db := d, events := events st @ [RemoveById adapter idv]\<rparr>))"

definition transformM ::
  "'db service \<Rightarrow> opts \<Rightarrow> nat \<Rightarrow> jsval \<Rightarrow> obj \<Rightarrow> jsval \<Rightarrow> ('db, jsval) action" where
  "transformM svc opts adapter result params ctx =
     (if transform opts then liftM (transformResult svc adapter result params ctx)
      else returnM result)"

text \<open>\<open>_entityChanged(data, ctx, opts)\<close>, with \<open>opts.type\<close> as the last argument.\<close>

definition entityChangedM :: "'db service \<Rightarrow> jsval \<Rightarrow> jsval \<Rightarrow> string \<Rightarrow> ('db, unit) action" where
  "entityChangedM svc data ctx type =
     bindM (case cacheEventName svc of
              Some eventName \<Rightarrow> if eventName \<noteq> [] then logM (Broadcast eventName) else returnM ()
            | None \<Rightarrow> returnM ()) (\<lambda>u.
     bindM (logM (EntityChanged type data)) (\<lambda>u.
       case entityChanged svc type data ctx of
         Some e \<Rightarrow> throwM e
       | None \<Rightarrow> returnM ()))"

text \<open>The two \<open>delete\<close> statements of \<open>updateEntity\<close> and \<open>replaceEntity\<close>.\<close>

definition stripPrimary :: "'db service \<Rightarrow> obj \<Rightarrow> obj" where
  "stripPrimary svc params =
     (let params = obj_delete (columnName (primaryField svc)) params in
      if columnName (primaryField svc) \<noteq> name (primaryField svc)
      then obj_delete (name (primaryField svc)) params else params)"

text \<open>\<open>updateEntity\<close>, \<open>replaceEntity\<close> and \<open>removeEntity\<close>.\<close>

definition updateEntity :: "'db service \<Rightarrow> jsval \<Rightarrow> obj \<Rightarrow> opts \<Rightarrow> ('db, jsval) action" where
  "updateEntity svc ctx params opts =
     bindM (liftM (getIDFromParams svc params True)) (\<lambda>idv.
     bindM (resolveEntities svc ctx params existing) (\<lambda>oldEntity.
       (let params = afterResolve svc ctx params existing;
            rawUpdate = (obj_get params ''$raw'' = Bool True);
            params = (if rawUpdate then obj_delete ''$raw'' params else params)
        in bindM (if \<not> rawUpdate then validateM svc ctx params ''update'' oldEntity
                  else returnM params) (\<lambda>params.
           (let idv = sanitizeID svc idv opts;
                params = stripPrimary svc params
            in bindM (getAdapter svc ctx) (\<lambda>adapter.
               bindM (updateByIdM svc adapter idv params (Some rawUpdate)) (\<lambda>result.
               bindM (transformM svc opts adapter result [] ctx) (\<lambda>result.
               bindM (entityChangedM svc result ctx ''update'') (\<lambda>u.
               returnM result)))))))))"

definition replaceEntity :: "'db service \<Rightarrow> jsval \<Rightarrow> obj \<Rightarrow> opts \<Rightarrow> ('db, jsval) action" where
  "replaceEntity svc ctx params opts =
     bindM (liftM (getIDFromParams svc params True)) (\<lambda>idv.
     bindM (resolveEntities svc ctx params existing) (\<lambda>oldEntity.
     bindM (getAdapter svc ctx) (\<lambda>adapter.
     bindM (validateM svc ctx (afterResolve svc ctx params existing) ''replace'' oldEntity) (\<lambda>params.
       (let idv = sanitizeID svc idv opts;
            params = stripPrimary svc params
        in bindM (replaceByIdM svc adapter idv params) (\<lambda>result.
           bindM (transformM svc opts adapter result [] ctx) (\<lambda>result.
           bindM (entityChangedM svc result ctx ''replace'') (\<lambda>u.
           returnM result))))))))"

definition removeEntity :: "'db service \<Rightarrow> jsval \<Rightarrow> obj \<Rightarrow> opts \<Rightarrow> ('db, jsval) action" where
  "removeEntity svc ctx params opts =
     bindM (liftM (getIDFromParams svc params True)) (\<lambda>idv.
       (let origID = idv
        in bindM (resolveEntities svc ctx params existing) (\<lambda>entity.
           bindM (getAdapter svc ctx) (\<lambda>adapter.
           bindM (validateM svc ctx (afterResolve svc ctx params existing) ''remove'' Undefined)
             (\<lambda>params.
             (let idv = sanitizeID svc idv opts
              in bindM (if softDelete svc then updateByIdM svc adapter idv params None
                        else removeByIdM svc adapter idv) (\<lambda>w.
                 bindM (transformM svc opts adapter entity params ctx) (\<lambda>entity.
                 bindM (entityChangedM svc entity ctx ''remove'') (\<lambda>u.
                 returnM origID)))))))))"

subsection \<open>A service over an in-memory adapter, for the examples\<close>

text \<open>
  The store is a list of entities; a filter is a list of conditions on fields, each a
  value or \<open>{$in: values}\<close>. Ids are numbers in the store and numeric strings for the
  caller; the validation refuses a payload with a field \<open>invalid\<close>; the transformation
  renames \<open>_id\<close> to \<open>id\<close> and encodes it.
\<close>

definition memMatches :: "jsval \<Rightarrow> jsval \<Rightarrow> bool" where
  "memMatches query entity =
     (case (query, entity) of
        (Obj conds, Obj props) \<Rightarrow>
          list_all (\<lambda>(k, c). case c of
                      Obj [(op, Arr vs)] \<Rightarrow> op = ''$in'' \<and> obj_get props k \<in> set vs
                    | _ \<Rightarrow> obj_get props k = c) conds
      | _ \<Rightarrow> False)"

definition memPatch :: "jsval \<Rightarrow> obj \<Rightarrow> jsval" where
  "memPatch entity payload =
     (case entity of
        Obj props \<Rightarrow> Obj (foldl (\<lambda>fs (k, v). obj_set k v fs) props payload)
      | _ \<Rightarrow> entity)"

definition memHasId :: "jsval \<Rightarrow> jsval \<Rightarrow> bool" where
  "memHasId idv entity = (getProp entity ''_id'' = Inr idv)"

definition memUpdateById :: "jsval list \<Rightarrow> jsval \<Rightarrow> obj \<Rightarrow> (error + jsval) \<times> jsval list" where
  "memUpdateById d idv payload =
     (case filter (memHasId idv) d of
        [] \<Rightarrow> (Inr Null, d)
      | e # es \<Rightarrow>
          (Inr (memPatch e payload),
           map (\<lambda>x. if memHasId idv x then memPatch x payload else x) d))"

definition memReplaceById :: "jsval list \<Rightarrow> jsval \<Rightarrow> obj \<Rightarrow> (error + jsval) \<times> jsval list" where
  "memReplaceById d idv payload =
     (Inr (Obj ((''_id'', idv) # payload)),
      map (\<lambda>x. if memHasId idv x then Obj ((''_id'', idv) # payload) else x) d)"

definition memRemoveById :: "jsval list \<Rightarrow> jsval \<Rightarrow> (error + jsval) \<times> jsval list" where
  "memRemoveById d idv = (Inr idv, filter (\<lambda>x. \<not> memHasId idv x) d)"

definition demoTransform :: "jsval \<Rightarrow> jsval" where
  "demoTransform entity =
     (case entity of
        Obj props \<Rightarrow>
          Obj (map (\<lambda>(k, v). if k = ''_id'' then (''id'', Str (ToString v)) else (k, v)) props)
      | _ \<Rightarrow> entity)"

definition demoService :: "jsval list service" where
  "demoService =
     \<lparr>primaryField = \<lparr>name = ''id'', columnName = ''_id'', secure = True\<rparr>,
      softDelete = False,
      settings = demoSettings,
      mixin = \<lparr>defaultPageSize = 10, maxLimit = 50, autoReconnect = False\<rparr>,
      cacheEventName = None,
      getAdapterByContext = (\<lambda>ctx. case ctx of Str s \<Rightarrow> s | _ \<Rightarrow> ''default''),
      encodeID = (\<lambda>v. Str (ToString v)),
      decodeID = (\<lambda>v. case v of Str s \<Rightarrow> Number s | _ \<Rightarrow> v),
      validateParams = (\<lambda>ctx params type oldEntity.
        if obj_has params ''invalid'' then Inl (ValidationFailed (Str type)) else Inr params),
      transformResult = (\<lambda>adapter result params ctx.
        Inr (case result of Arr docs \<Rightarrow> Arr (map demoTransform docs) | _ \<Rightarrow> demoTransform result)),
      entityChanged = (\<lambda>type data ctx. None),
      adapter_connect = (\<lambda>adapter. []),
      adapter_disconnect = (\<lambda>adapter.
        if adapter = 0 then Some \<lparr>settledAt = 1, rejection = Some (Thrown (Str ''down''))\<rparr>
        else Some \<lparr>settledAt = 5, rejection = Some (Thrown (Str ''busy''))\<rparr>),
      adapter_find = (\<lambda>adapter d params.
        Inr (Some (filter (memMatches (obj_get params ''query'')) d))),
      adapter_updateById = (\<lambda>adapter d idv payload raw. memUpdateById d idv payload),
      adapter_replaceById = (\<lambda>adapter d idv payload. memReplaceById d idv payload),
      adapter_removeById = (\<lambda>adapter d idv. memRemoveById d idv)\<rparr>"

definition demoDb :: "jsval list" where
  "demoDb = [Obj [(''_id'', Num 5), (''status'', Num 1), (''title'', Str ''a'')],
             Obj [(''_id'', Num 7), (''status'', Num 1), (''title'', Str ''b'')]]"

definition plain :: opts where
  "plain = \<lparr>transform = True, throwIfNotExist = False, secureID = None\<rparr>"


subsection \<open>What a call adds to the log\<close>

text \<open>
  The adapter calls that change the store; the events whose payload, if they carry one
  for an update or a replacement, holds neither name of the primary field; and the
  actions that only add events with a given property to the log.
\<close>

definition isWrite :: "event \<Rightarrow> bool" where
  "isWrite ev =
     (case ev of
        UpdateById a i p r \<Rightarrow> True
      | ReplaceById a i p \<Rightarrow> True
      | RemoveById a i \<Rightarrow> True
      | _ \<Rightarrow> False)"

definition stripped :: "'db service \<Rightarrow> event \<Rightarrow> bool" where
  "stripped svc ev =
     (case ev of
        UpdateById a i p r \<Rightarrow>
          \<not> obj_has p (name (primaryField svc)) \<and> \<not> obj_has p (columnName (primaryField svc))
      | ReplaceById a i p \<Rightarrow>
          \<not> obj_has p (name (primaryField svc)) \<and> \<not> obj_has p (columnName (primaryField svc))
      | _ \<Rightarrow> True)"

definition logs :: "(event \<Rightarrow> bool) \<Rightarrow> ('db, 'a) action \<Rightarrow> bool" where
  "logs P m = (\<forall>st. \<exists>evs. events (snd (m st)) = events st @ evs \<and> list_all P evs)"

subsection \<open>The invariant of the registry\<close>

text \<open>
  What holds of the registry while calls of \<open>getAdapter\<close> overlap: one entry per key,
  the instances in the order of their creation, one \<open>_connect\<close> for each, and every
  call that waits or has returned holds the adapter registered under its key.
\<close>

definition registryInv :: "'db service \<Rightarrow> 'db sched \<Rightarrow> bool" where
  "registryInv svc sc =
     (distinct (map fst (adapters (shared sc)))
      \<and> map snd (adapters (shared sc)) = [0..<created (shared sc)]
      \<and> events (shared sc) = map Connect [0..<created (shared sc)]
      \<and> (\<forall>(ctx, a) \<in> set (waiting sc).
            map_of (adapters (shared sc)) (getAdapterByContext svc ctx) = Some a)
      \<and> (\<forall>(ctx, r) \<in> set (returned sc). \<forall>a. r = Inr a \<longrightarrow>
            map_of (adapters (shared sc)) (getAdapterByContext svc ctx) = Some a))"

section \<open>Properties of objects\<close>

lemma obj_get_set: "obj_get (obj_set k v p) k' = (if k' = k then v else obj_get p k')"
  by (simp add: obj_get_def obj_set_def update_conv')

lemma obj_has_set: "obj_has (obj_set k v p) k' = (k' = k \<or> obj_has p k')"
  by (simp add: obj_has_def obj_set_def update_conv')


lemma obj_has_delete: "obj_has (obj_delete k p) k' = (k' \<noteq> k \<and> obj_has p k')"
  by (auto simp: obj_has_def obj_delete_def delete_conv')


section \<open>Pagination\<close>












section \<open>Removing the pagination fields\<close>










section \<open>The active scopes\<close>

text \<open>
  Claim C3, as stated, fails for an empty sequence: an array is truthy, so
  \<open>scope: []\<close> is taken as the explicit scope set, no scope is applied and the plan
  comes back unchanged, while the same call without \<open>scope\<close> gets the default scope.
\<close>

theorem applyScopes_empty_scope_counterexample:
  "applyScopes demoSettings [(''scope'', Arr [])] Null = Inr [(''scope'', Arr [])]
   \<and> applyScopes demoSettings [] Null = Inr [(''query'', Obj [(''status'', Num 1)])]"
  by (simp add: applyScopes_def activeScopes_def demoSettings_def obj_get_def obj_set_def)

text \<open>
  Claim C3, amended. The active scope set of \<open>_applyScopes\<close> is the \<open>scope\<close> field,
  made a sequence, when that field is truthy; the configured default scopes when it is
  falsy and not \<open>false\<close>; and empty when it is \<open>false\<close>. With \<open>scope: false\<close>, and
  also with \<open>scope: []\<close>, the plan comes back as it was passed, its filter untouched.
  In every other case the filter is the fold of the active scopes over a copy of the
  caller's filter.
\<close>

theorem applyScopes_scope_set:
  "(truthy (obj_get params ''scope'') \<longrightarrow>
      activeScopes se params =
        (case obj_get params ''scope'' of Arr names \<Rightarrow> names | v \<Rightarrow> [v]))
   \<and> (\<not> truthy (obj_get params ''scope'') \<and> obj_get params ''scope'' \<noteq> Bool False \<longrightarrow>
      activeScopes se params = (case defaultScopes se of None \<Rightarrow> [] | Some names \<Rightarrow> names))
   \<and> (obj_get params ''scope'' = Bool False \<or> obj_get params ''scope'' = Arr [] \<longrightarrow>
      activeScopes se params = [] \<and> applyScopes se params ctx = Inr params)
   \<and> applyScopes se params ctx =
       (if activeScopes se params = [] then Inr params
        else case reduceScopes se ctx (activeScopes se params)
                    (if truthy (obj_get params ''query'') then obj_get params ''query''
                     else Obj []) of
               Inl e \<Rightarrow> Inl e
             | Inr query \<Rightarrow> Inr (obj_set ''query'' query params))"
  by (auto simp: activeScopes_def applyScopes_def Let_def split: jsval.splits)

theorem applyScopes_scope_set_witness:
  "applyScopes demoSettings [(''scope'', Bool False), (''query'', Obj [(''a'', Num 1)])] Null
     = Inr [(''scope'', Bool False), (''query'', Obj [(''a'', Num 1)])]"
proof -
  have "obj_get [(''scope'', Bool False), (''query'', Obj [(''a'', Num 1)])] ''scope'' = Bool False"
    by (simp add: obj_get_def)
  with applyScopes_scope_set
    [of "[(''scope'', Bool False), (''query'', Obj [(''a'', Num 1)])]" demoSettings Null]
  show ?thesis by blast
qed

section \<open>The adapter registry\<close>

lemma update_absent: "map_of al k = None \<Longrightarrow> AList.update k v al = al @ [(k, v)]"
  by (induction al) (auto split: if_splits)

lemma getAdapterSync_found:
  "map_of (adapters st) (getAdapterByContext svc ctx) = Some a \<Longrightarrow>
     getAdapterSync svc ctx st = ((a, False), st)"
  by (simp add: getAdapterSync_def)

lemma getAdapterSync_registered:
  "getAdapterSync svc ctx st = ((a, w), st') \<Longrightarrow>
     map_of (adapters st') (getAdapterByContext svc ctx) = Some a"
  by (auto simp: getAdapterSync_def Let_def update_conv' split: option.splits)

lemma getAdapter_registered:
  assumes "getAdapter svc ctx st = (r, st')"
  shows "\<exists>a. map_of (adapters st') (getAdapterByContext svc ctx) = Some a
           \<and> (r = Inr a \<or> (\<exists>e. r = Inl e \<and> connect svc a = Inl e))"
proof -
  obtain a w st1 where s: "getAdapterSync svc ctx st = ((a, w), st1)"
    by (metis prod.exhaust)
  from getAdapterSync_registered [OF s]
  have "map_of (adapters st1) (getAdapterByContext svc ctx) = Some a" .
  moreover from assms s have "st' = st1" "r = Inr a \<or> (\<exists>e. r = Inl e \<and> connect svc a = Inl e)"
    by (auto simp: getAdapter_def split: if_splits sum.splits)
  ultimately show ?thesis by blast
qed

lemma getAdapter_found:
  "map_of (adapters st) (getAdapterByContext svc ctx) = Some a \<Longrightarrow>
     getAdapter svc ctx st = (Inr a, st)"
  by (simp add: getAdapter_def getAdapterSync_found)

lemma registryInv_idle: "registryInv svc (idle d)"
  by (simp add: registryInv_def idle_def initialState_def)

lemma registryInv_step:
  assumes "registryInv svc sc"
  shows "registryInv svc (step svc sc c)"
proof (cases c)
  case (Call ctx)
  let ?k = "getAdapterByContext svc ctx"
  show ?thesis
  proof (cases "map_of (adapters (shared sc)) ?k")
    case (Some a)
    then have "step svc sc c = sc\<lparr>returned := returned sc @ [(ctx, Inr a)]\<rparr>"
      by (simp add: step_def Call getAdapterSync_found)
    with assms Some show ?thesis
      by (auto simp: registryInv_def)
  next
    case None
    let ?a = "created (shared sc)"
    let ?st = "(shared sc)\<lparr>adapters := adapters (shared sc) @ [(?k, ?a)],
               created := Suc ?a, events := events (shared sc) @ [Connect ?a]\<rparr>"
    from None have s: "step svc sc c = sc\<lparr>shared := ?st, waiting := waiting sc @ [(ctx, ?a)]\<rparr>"
      by (simp add: step_def Call getAdapterSync_def Let_def update_absent)
    from None have notin: "?k \<notin> fst ` set (adapters (shared sc))"
      by (simp add: map_of_eq_None_iff)
    have keep: "map_of (adapters (shared sc) @ [(?k, ?a)]) k' = Some b"
      if "map_of (adapters (shared sc)) k' = Some b" for k' b
      using that by (simp add: map_add_Some_iff)
    have new: "map_of (adapters (shared sc) @ [(?k, ?a)]) ?k = Some ?a"
      using None by (simp add: map_add_Some_iff)
    from assms notin show ?thesis
      unfolding s registryInv_def
      by (auto simp: keep new simp del: map_of_append map_of_eq_Some_iff)
  qed
next
  case (Resume i)
  show ?thesis
  proof (cases "i < length (waiting sc)")
    case False
    with assms show ?thesis by (simp add: step_def Resume)
  next
    case True
    obtain ctx a where w: "waiting sc ! i = (ctx, a)" by (metis prod.exhaust)
    from True w have mem: "(ctx, a) \<in> set (waiting sc)" by (metis nth_mem)
    from True w have s: "step svc sc c =
        sc\<lparr>waiting := take i (waiting sc) @ drop (Suc i) (waiting sc),
           returned := returned sc @
             [(ctx, case connect svc a of Inl e \<Rightarrow> Inl e | Inr u \<Rightarrow> Inr a)]\<rparr>"
      by (simp add: step_def Resume)
    let ?P = "\<lambda>ctx a. map_of (adapters (shared sc)) (getAdapterByContext svc ctx) = Some a"
    from assms have wa: "?P c b" if "(c, b) \<in> set (waiting sc)" for c b
      using that unfolding registryInv_def by blast
    from assms have ra: "?P c b" if "(c, Inr b) \<in> set (returned sc)" for c b
      using that unfolding registryInv_def by blast
    have w': "\<forall>(c, b) \<in> set (take i (waiting sc) @ drop (Suc i) (waiting sc)). ?P c b"
      using wa by (auto dest!: in_set_takeD in_set_dropD)
    have r': "\<forall>(c, r) \<in> set (returned sc @
             [(ctx, case connect svc a of Inl e \<Rightarrow> Inl e | Inr u \<Rightarrow> Inr a)]).
           \<forall>b. r = Inr b \<longrightarrow> ?P c b"
      using ra wa [OF mem] by (auto split: sum.splits)
    from assms have "distinct (map fst (adapters (shared sc)))"
      "map snd (adapters (shared sc)) = [0..<created (shared sc)]"
      "events (shared sc) = map Connect [0..<created (shared sc)]"
      unfolding registryInv_def by blast+
    with w' r' show ?thesis
      unfolding s registryInv_def by simp
  qed
qed

lemma registryInv_run: "registryInv svc sc \<Longrightarrow> registryInv svc (run svc cs sc)"
  unfolding run_def by (induction cs arbitrary: sc) (simp_all add: registryInv_step)


text \<open>
  Claim C7. A call of \<open>getAdapter\<close> registers the adapter it returns under the tenant
  key, and a later call with the same key returns that instance and leaves the state as
  it is, so it creates nothing and connects nothing (also when the first call failed to
  connect: the entry stays). For calls that overlap, in any order of their synchronous
  parts and of the completions of \<open>_connect\<close>, starting from the empty registry: two
  calls with the same tenant key that return an adapter return the same instance, the
  one registered under the key; the registry holds one entry per key and one instance
  per entry, every instance created is registered, and \<open>_connect\<close> has been invoked
  exactly once for each entry.
\<close>

theorem getAdapter_same_instance:
  "(getAdapter svc ctx st = (r, st1) \<and> getAdapterByContext svc ctx' = getAdapterByContext svc ctx
      \<longrightarrow> (\<exists>a. map_of (adapters st1) (getAdapterByContext svc ctx) = Some a
             \<and> (r = Inr a \<or> (\<exists>e. r = Inl e \<and> connect svc a = Inl e))
             \<and> getAdapter svc ctx' st1 = (Inr a, st1)))
   \<and> (\<forall>c1 c2 a1 a2.
         (c1, Inr a1) \<in> set (returned (run svc cs (idle d)))
         \<and> (c2, Inr a2) \<in> set (returned (run svc cs (idle d)))
         \<and> getAdapterByContext svc c1 = getAdapterByContext svc c2 \<longrightarrow> a1 = a2)
   \<and> (\<forall>c a. (c, Inr a) \<in> set (returned (run svc cs (idle d))) \<longrightarrow>
         map_of (adapters (shared (run svc cs (idle d)))) (getAdapterByContext svc c) = Some a)
   \<and> distinct (map fst (adapters (shared (run svc cs (idle d)))))
   \<and> distinct (map snd (adapters (shared (run svc cs (idle d)))))
   \<and> length (adapters (shared (run svc cs (idle d)))) = created (shared (run svc cs (idle d)))
   \<and> events (shared (run svc cs (idle d))) =
       map Connect (map snd (adapters (shared (run svc cs (idle d)))))"
proof -
  let ?sc = "run svc cs (idle d)"
  have inv: "registryInv svc ?sc"
    by (rule registryInv_run) (rule registryInv_idle)
  have seq: "getAdapter svc ctx st = (r, st1) \<and>
      getAdapterByContext svc ctx' = getAdapterByContext svc ctx
      \<longrightarrow> (\<exists>a. map_of (adapters st1) (getAdapterByContext svc ctx) = Some a
             \<and> (r = Inr a \<or> (\<exists>e. r = Inl e \<and> connect svc a = Inl e))
             \<and> getAdapter svc ctx' st1 = (Inr a, st1))"
  proof (intro impI, elim conjE)
    assume g: "getAdapter svc ctx st = (r, st1)"
      and k: "getAdapterByContext svc ctx' = getAdapterByContext svc ctx"
    from getAdapter_registered [OF g] obtain a where
      a: "map_of (adapters st1) (getAdapterByContext svc ctx) = Some a"
      "r = Inr a \<or> (\<exists>e. r = Inl e \<and> connect svc a = Inl e)" by blast
    from a(1) k have "getAdapter svc ctx' st1 = (Inr a, st1)"
      by (simp add: getAdapter_found)
    with a show "\<exists>a. map_of (adapters st1) (getAdapterByContext svc ctx) = Some a
             \<and> (r = Inr a \<or> (\<exists>e. r = Inl e \<and> connect svc a = Inl e))
             \<and> getAdapter svc ctx' st1 = (Inr a, st1)" by blast
  qed
  from inv have ret: "map_of (adapters (shared ?sc)) (getAdapterByContext svc c) = Some a"
    if "(c, Inr a) \<in> set (returned ?sc)" for c a
    using that unfolding registryInv_def by blast
  from inv have d1: "distinct (map fst (adapters (shared ?sc)))"
    and sn: "map snd (adapters (shared ?sc)) = [0..<created (shared ?sc)]"
    and ev: "events (shared ?sc) = map Connect [0..<created (shared ?sc)]"
    unfolding registryInv_def by blast+
  from sn have d2: "distinct (map snd (adapters (shared ?sc)))" by simp
  from sn have len: "length (adapters (shared ?sc)) = created (shared ?sc)"
    by (metis length_map length_upt minus_nat.diff_0)
  from ret have same: "\<forall>c1 c2 a1 a2.
         (c1, Inr a1) \<in> set (returned ?sc) \<and> (c2, Inr a2) \<in> set (returned ?sc)
         \<and> getAdapterByContext svc c1 = getAdapterByContext svc c2 \<longrightarrow> a1 = a2"
    by (metis option.inject)
  from seq same ret d1 d2 len ev sn show ?thesis by simp
qed

theorem getAdapter_same_instance_witness:
  "returned (run demoService [Call Null, Call Null, Resume 0] (idle demoDb))
     = [(Null, Inr 0), (Null, Inr 0)]
   \<and> map_of (adapters (shared (run demoService [Call Null, Call Null, Resume 0] (idle demoDb))))
        ''default'' = Some 0
   \<and> events (shared (run demoService [Call Null, Call Null, Resume 0] (idle demoDb)))
        = [Connect 0]"
proof -
  let ?sc = "run demoService [Call Null, Call Null, Resume 0] (idle demoDb)"
  have r: "returned ?sc = [(Null, Inr 0), (Null, Inr 0)]"
    by code_simp
  have k: "getAdapterByContext demoService Null = ''default''"
    by (simp add: demoService_def)
  have a: "adapters (shared ?sc) = [(''default'', 0)]"
    by code_simp
  note t = getAdapter_same_instance [of demoService Null "initialState demoDb"
      "Inr 0" "initialState demoDb" Null "[Call Null, Call Null, Resume 0]" demoDb]
  from t r have "map_of (adapters (shared ?sc)) (getAdapterByContext demoService Null) = Some 0"
    by simp
  moreover from t have "events (shared ?sc) = map Connect (map snd (adapters (shared ?sc)))"
    by blast
  ultimately show ?thesis using r k a by simp
qed

section \<open>Disconnecting\<close>









section \<open>Removing an entity\<close>

lemma bindM_InrE:
  assumes "bindM m f st = (Inr v, st')"
  obtains x s1 where "m st = (Inr x, s1)" and "f x s1 = (Inr v, st')"
  using assms by (auto simp: bindM_def split: prod.splits sum.splits)

lemma liftM_eq: "liftM r st = (r', st') \<longleftrightarrow> r = r' \<and> st' = st"
  by (auto simp: liftM_def)

lemma returnM_eq: "returnM x st = (r, st') \<longleftrightarrow> r = Inr x \<and> st' = st"
  by (auto simp: returnM_def)

lemma throwM_eq: "throwM e st = (r, st') \<longleftrightarrow> r = Inl e \<and> st' = st"
  by (auto simp: throwM_def)

lemma getIDFromParams_Inr:
  "getIDFromParams svc params b = Inr v \<Longrightarrow> v = obj_get params (name (primaryField svc))"
  by (auto simp: getIDFromParams_def Let_def split: if_splits)

lemma getAdapter_db: "getAdapter svc ctx st = (r, st') \<Longrightarrow> db st' = db st"
  by (auto simp: getAdapter_def getAdapterSync_def Let_def split: option.splits sum.splits if_splits)

lemma transformM_state:
  "transformM svc opts adapter result params ctx st = (r, st') \<Longrightarrow> st' = st"
  by (auto simp: transformM_def liftM_def returnM_def split: if_splits)

lemma entityChangedM_events:
  "entityChangedM svc data ctx type st = (r, st') \<Longrightarrow>
     \<exists>evs. events st' = events st @ evs \<and> db st' = db st
        \<and> list_all (\<lambda>ev. \<exists>n. ev = Broadcast n \<or> ev = EntityChanged type data) evs"
  by (auto simp: entityChangedM_def bindM_def logM_def returnM_def throwM_def
        split: option.splits if_splits prod.splits sum.splits)

text \<open>
  Claim C6. A call of \<open>removeEntity\<close> that returns, returns the value the caller's
  params hold under the name of the primary field, as the caller wrote it, and not the
  value \<open>_sanitizeID\<close> makes of it, which is what the adapter is given. That is so in
  both branches: with soft delete the adapter's \<open>updateById\<close> has been called with the
  sanitized id and the validated payload, without it \<open>removeById\<close> with the sanitized
  id.
\<close>

theorem removeEntity_returns_origID:
  assumes "removeEntity svc ctx params opts st = (Inr v, st')"
  shows "v = obj_get params (name (primaryField svc))
    \<and> (\<exists>adapter payload.
          validateParams svc ctx (afterResolve svc ctx params existing) ''remove'' Undefined
            = Inr payload
          \<and> (if softDelete svc
              then UpdateById adapter (sanitizeID svc v opts) payload None \<in> set (events st')
              else RemoveById adapter (sanitizeID svc v opts) \<in> set (events st')))"
  using assms unfolding removeEntity_def Let_def
  apply (elim bindM_InrE)
  apply (drule transformM_state)
  apply (drule entityChangedM_events)
  apply (auto simp: liftM_eq returnM_eq validateM_def updateByIdM_def removeByIdM_def
      dest!: getIDFromParams_Inr split: if_splits prod.splits)
  done

theorem removeEntity_returns_origID_witness:
  "fst (removeEntity demoService Null [(''id'', Str ''5'')] plain (initialState demoDb))
     = Inr (Str ''5'')
   \<and> (\<exists>adapter. RemoveById adapter (Num 5) \<in> set (events (snd
         (removeEntity demoService Null [(''id'', Str ''5'')] plain (initialState demoDb)))))
   \<and> fst (removeEntity (demoService\<lparr>softDelete := True\<rparr>) Null
          [(''id'', Str ''5''), (''deletedAt'', Num 1)] plain (initialState demoDb))
     = Inr (Str ''5'')
   \<and> (\<exists>adapter payload. UpdateById adapter (Num 5) payload None \<in> set (events (snd
         (removeEntity (demoService\<lparr>softDelete := True\<rparr>) Null
            [(''id'', Str ''5''), (''deletedAt'', Num 1)] plain (initialState demoDb)))))"
proof -
  let ?hard = "removeEntity demoService Null [(''id'', Str ''5'')] plain (initialState demoDb)"
  let ?soft = "removeEntity (demoService\<lparr>softDelete := True\<rparr>) Null
          [(''id'', Str ''5''), (''deletedAt'', Num 1)] plain (initialState demoDb)"
  have h: "fst ?hard = Inr (Str ''5'')" by code_simp
  have s: "fst ?soft = Inr (Str ''5'')" by code_simp
  from h have h': "?hard = (Inr (Str ''5''), snd ?hard)" by (metis prod.collapse)
  from s have s': "?soft = (Inr (Str ''5''), snd ?soft)" by (metis prod.collapse)
  have sd: "\<not> softDelete demoService" "softDelete (demoService\<lparr>softDelete := True\<rparr>)"
    by (simp_all add: demoService_def)
  have id1: "sanitizeID demoService (Str ''5'') plain = Num 5" by code_simp
  have id2: "sanitizeID (demoService\<lparr>softDelete := True\<rparr>) (Str ''5'') plain = Num 5"
    by code_simp
  from removeEntity_returns_origID [OF h'] sd(1) id1
  have "\<exists>adapter. RemoveById adapter (Num 5) \<in> set (events (snd ?hard))"
    by auto
  moreover from removeEntity_returns_origID [OF s'] sd(2) id2
  have "\<exists>adapter payload. UpdateById adapter (Num 5) payload None \<in> set (events (snd ?soft))"
    by auto
  ultimately show ?thesis using h s by blast
qed

section \<open>Resolving entities\<close>

lemma applyScopes_keeps:
  "applyScopes se params ctx = Inr p \<Longrightarrow> k \<noteq> ''query'' \<Longrightarrow> obj_get p k = obj_get params k"
  by (auto simp: applyScopes_def obj_get_set split: if_splits sum.splits)

lemma resolveParams_keeps:
  "resolveParams svc ctx params opts = Inr p \<Longrightarrow> k \<noteq> ''query'' \<Longrightarrow>
     obj_get p k = obj_get params k"
  by (auto simp: resolveParams_def Let_def obj_get_set dest: applyScopes_keeps
      split: sum.splits if_splits)

lemma reduceMapping_spec:
  "reduceMapping svc us ds m0 = Inr m \<Longrightarrow>
     length ds \<le> length us
     \<and> (\<forall>k. obj_get m k =
           (case filter (\<lambda>(u, d). idKey svc u = Inr k) (zip us ds) of
              [] \<Rightarrow> obj_get m0 k
            | x # xs \<Rightarrow> snd (last (x # xs))))
     \<and> (\<forall>k. obj_has m k = (obj_has m0 k \<or> (\<exists>(u, d) \<in> set (zip us ds). idKey svc u = Inr k)))"
proof (induction svc us ds m0 rule: reduceMapping.induct)
  case (1 svc us m)
  then show ?case by simp
next
  case (2 svc doc docs m)
  then show ?case by simp
next
  case (3 svc u us doc docs m0)
  from "3.prems" obtain k0 where k0: "idKey svc u = Inr k0"
    and r: "reduceMapping svc us docs (obj_set k0 doc m0) = Inr m"
    by (auto split: sum.splits)
  note ih = "3.IH" [OF k0 r]
  let ?F = "\<lambda>k. filter (\<lambda>(u, d). idKey svc u = Inr k) (zip us docs)"
  from ih have len: "length docs \<le> length us" by blast
  have get: "obj_get m k =
           (case filter (\<lambda>(u, d). idKey svc u = Inr k) (zip (u # us) (doc # docs)) of
              [] \<Rightarrow> obj_get m0 k
            | x # xs \<Rightarrow> snd (last (x # xs)))" for k
  proof -
    from ih have g: "obj_get m k =
        (case ?F k of [] \<Rightarrow> obj_get (obj_set k0 doc m0) k | x # xs \<Rightarrow> snd (last (x # xs)))"
      by blast
    show ?thesis
    proof (cases "k = k0")
      case True
      with g k0 show ?thesis by (cases "?F k0") (simp_all add: obj_get_set)
    next
      case False
      with g k0 show ?thesis by (simp add: obj_get_set cong: list.case_cong)
    qed
  qed
  have has: "obj_has m k = (obj_has m0 k \<or>
      (\<exists>(u, d) \<in> set (zip (u # us) (doc # docs)). idKey svc u = Inr k))" for k
  proof -
    from ih have "obj_has m k = (obj_has (obj_set k0 doc m0) k \<or>
        (\<exists>(u, d) \<in> set (zip us docs). idKey svc u = Inr k))" by blast
    with k0 show ?thesis by (auto simp: obj_has_set)
  qed
  from len get has show ?case by simp
qed

lemma mapping_Inr:
  assumes "mapping svc us result = Inr r"
  obtains docs m where "result = Arr docs" "reduceMapping svc us docs [] = Inr m" "r = Obj m"
  using assms by (auto simp: mapping_def split: jsval.splits sum.splits)

lemma findM_eq:
  "findM svc adapter p st = (r, st') \<longleftrightarrow>
     adapter_find svc adapter (db st) p = r \<and> st' = st\<lparr>events := events st @ [Find adapter p]\<rparr>"
  by (auto simp: findM_def)

lemma resolveEntities_mapping_parts:
  assumes "resolveEntities svc ctx params opts st = (Inr r, st')"
    and "obj_get params ''mapping'' = Bool True"
  shows "\<exists>p adapter ents docs m.
      resolveParams svc ctx params opts = Inr p
      \<and> adapter_find svc adapter (db st) p = Inr (Some ents)
      \<and> (if transform opts then transformResult svc adapter (Arr ents) p ctx = Inr (Arr docs)
          else docs = ents)
      \<and> reduceMapping svc ents docs [] = Inr m
      \<and> r = Obj m"
proof -
  from assms(1) obtain p where p: "resolveParams svc ctx params opts = Inr p"
    by (cases "resolveParams svc ctx params opts") (auto simp: resolveEntities_def throwM_def)
  from resolveParams_keeps [OF p, of "''mapping''"] assms(2)
  have mp: "obj_get p ''mapping'' = Bool True" by simp
  from assms(1) p obtain adapter s1 where ga: "getAdapter svc ctx st = (Inr adapter, s1)"
    and 1: "bindM (findM svc adapter p) (\<lambda>found.
            if (found = None \<or> found = Some []) \<and> throwIfNotExist opts then
              throwM (EntityNotFound (obj_get params (name (primaryField svc))))
            else
              (case found of
                 None \<Rightarrow> throwM TypeError
               | Some unTransformedRes \<Rightarrow>
                   bindM (if transform opts
                          then liftM (transformResult svc adapter (Arr unTransformedRes) p ctx)
                          else returnM (Arr unTransformedRes)) (\<lambda>result.
                     if obj_get p ''mapping'' = Bool True then
                       liftM (mapping svc unTransformedRes result)
                     else if \<not> isArray (obj_get params (name (primaryField svc))) then
                       liftM (index0 result)
                     else returnM result))) s1 = (Inr r, st')"
    by (auto simp: resolveEntities_def elim: bindM_InrE)
  from 1 obtain found s2 where f: "findM svc adapter p s1 = (Inr found, s2)"
    and 2: "(if (found = None \<or> found = Some []) \<and> throwIfNotExist opts then
              throwM (EntityNotFound (obj_get params (name (primaryField svc))))
            else
              (case found of
                 None \<Rightarrow> throwM TypeError
               | Some unTransformedRes \<Rightarrow>
                   bindM (if transform opts
                          then liftM (transformResult svc adapter (Arr unTransformedRes) p ctx)
                          else returnM (Arr unTransformedRes)) (\<lambda>result.
                     if obj_get p ''mapping'' = Bool True then
                       liftM (mapping svc unTransformedRes result)
                     else if \<not> isArray (obj_get params (name (primaryField svc))) then
                       liftM (index0 result)
                     else returnM result))) s2 = (Inr r, st')"
    by (rule bindM_InrE)
  from 2 obtain ents where found: "found = Some ents"
    and 3: "bindM (if transform opts
                          then liftM (transformResult svc adapter (Arr ents) p ctx)
                          else returnM (Arr ents)) (\<lambda>result.
                       liftM (mapping svc ents result)) s2 = (Inr r, st')"
    by (cases found) (auto simp: throwM_def mp split: if_splits)
  from 3 obtain result s3 where
    tr: "(if transform opts then liftM (transformResult svc adapter (Arr ents) p ctx)
          else returnM (Arr ents)) s2 = (Inr result, s3)"
    and 4: "liftM (mapping svc ents result) s3 = (Inr r, st')"
    by (rule bindM_InrE)
  from 4 have "mapping svc ents result = Inr r" by (simp add: liftM_eq)
  then obtain docs m where res: "result = Arr docs"
    and m: "reduceMapping svc ents docs [] = Inr m" and r: "r = Obj m"
    by (rule mapping_Inr)
  from tr res have docs: "if transform opts
      then transformResult svc adapter (Arr ents) p ctx = Inr (Arr docs) else docs = ents"
    by (auto simp: liftM_eq returnM_eq split: if_splits)
  from f found getAdapter_db [OF ga]
  have "adapter_find svc adapter (db st) p = Inr (Some ents)"
    by (simp add: findM_eq)
  with p docs m r show ?thesis by blast
qed

text \<open>
  Claim C1. When \<open>resolveEntities\<close> returns and \<open>params.mapping\<close> is \<open>true\<close>, the
  adapter's \<open>find\<close> gave an array \<open>ents\<close> for the plan of the call, \<open>docs\<close> is what
  \<open>transformResult\<close> made of it (\<open>ents\<close> itself when the transformation is switched
  off), and the value returned is an object \<open>m\<close> with: a key for exactly the entities
  that have a document at their position, the key of an entity being the string of the
  value its primary column holds before the transformation, passed through
  \<open>encodeID\<close> when the primary field is secure; under a key, the document of the last
  entity with that key, so a later duplicate has overwritten an earlier one. When one
  entity was found, the object has that one key only.
\<close>

theorem resolveEntities_mapping:
  assumes "resolveEntities svc ctx params opts st = (Inr r, st')"
    and "obj_get params ''mapping'' = Bool True"
  shows "\<exists>p adapter ents docs m.
      resolveParams svc ctx params opts = Inr p
      \<and> adapter_find svc adapter (db st) p = Inr (Some ents)
      \<and> (if transform opts then transformResult svc adapter (Arr ents) p ctx = Inr (Arr docs)
          else docs = ents)
      \<and> length docs \<le> length ents
      \<and> r = Obj m
      \<and> (\<forall>k. obj_has m k = (\<exists>(u, d) \<in> set (zip ents docs). idKey svc u = Inr k))
      \<and> (\<forall>k. obj_get m k =
            (case filter (\<lambda>(u, d). idKey svc u = Inr k) (zip ents docs) of
               [] \<Rightarrow> Undefined
             | x # xs \<Rightarrow> snd (last (x # xs))))
      \<and> (\<forall>u d. ents = [u] \<and> docs = [d] \<longrightarrow>
            (\<exists>idv. getProp u (columnName (primaryField svc)) = Inr idv
               \<and> m = [(ToString (if secure (primaryField svc) then encodeID svc idv else idv), d)]))"
proof -
  from resolveEntities_mapping_parts [OF assms] obtain p adapter ents docs m where
    p: "resolveParams svc ctx params opts = Inr p"
    and f: "adapter_find svc adapter (db st) p = Inr (Some ents)"
    and d: "if transform opts then transformResult svc adapter (Arr ents) p ctx = Inr (Arr docs)
          else docs = ents"
    and m: "reduceMapping svc ents docs [] = Inr m" and r: "r = Obj m"
    by blast
  note spec = reduceMapping_spec [OF m]
  from spec have len: "length docs \<le> length ents" by blast
  have e: "obj_get [] k = Undefined" "obj_has [] k = False" for k
    by (simp_all add: obj_get_def obj_has_def)
  from spec have has: "\<forall>k. obj_has m k = (\<exists>(u, d) \<in> set (zip ents docs). idKey svc u = Inr k)"
    by (simp add: e)
  from spec have get: "\<forall>k. obj_get m k =
            (case filter (\<lambda>(u, d). idKey svc u = Inr k) (zip ents docs) of
               [] \<Rightarrow> Undefined
             | x # xs \<Rightarrow> snd (last (x # xs)))"
    by (simp add: e cong: list.case_cong)
  have one: "\<forall>u d. ents = [u] \<and> docs = [d] \<longrightarrow>
            (\<exists>idv. getProp u (columnName (primaryField svc)) = Inr idv
               \<and> m = [(ToString (if secure (primaryField svc) then encodeID svc idv else idv), d)])"
    using m by (fastforce simp: idKey_def obj_set_def split: sum.splits)
  from p f d len r has get one show ?thesis by blast
qed

theorem resolveEntities_mapping_witness:
  "fst (resolveEntities demoService Null
          [(''id'', Arr [Str ''5'', Str ''6'']), (''mapping'', Bool True)] plain
          (initialState demoDb))
     = Inr (Obj [(''5'', Obj [(''id'', Str ''5''), (''status'', Num 1), (''title'', Str ''a'')])])
   \<and> (\<exists>p adapter.
         resolveParams demoService Null
           [(''id'', Arr [Str ''5'', Str ''6'']), (''mapping'', Bool True)] plain = Inr p
         \<and> adapter_find demoService adapter demoDb p
             = Inr (Some [Obj [(''_id'', Num 5), (''status'', Num 1), (''title'', Str ''a'')]]))"
proof -
  let ?params = "[(''id'', Arr [Str ''5'', Str ''6'']), (''mapping'', Bool True)]"
  let ?call = "resolveEntities demoService Null ?params plain (initialState demoDb)"
  let ?r = "Obj [(''5'', Obj [(''id'', Str ''5''), (''status'', Num 1), (''title'', Str ''a'')])]"
  have r: "fst ?call = Inr ?r" by code_simp
  then obtain st' where run: "?call = (Inr ?r, st')" by (metis prod.collapse)
  have mp: "obj_get ?params ''mapping'' = Bool True" by (simp add: obj_get_def)
  have f: "adapter_find demoService adapter demoDb p
      = Inr (Some (filter (memMatches (obj_get p ''query'')) demoDb))" for adapter p
    by (simp add: demoService_def)
  from resolveEntities_mapping [OF run mp] obtain p adapter ents where
    p: "resolveParams demoService Null ?params plain = Inr p"
    and e: "adapter_find demoService adapter (db (initialState demoDb)) p = Inr (Some ents)"
    by blast
  have "resolveParams demoService Null ?params plain
      = Inr [(''id'', Arr [Str ''5'', Str ''6'']), (''mapping'', Bool True),
             (''query'', Obj [(''status'', Num 1), (''_id'', Obj [(''$in'', Arr [Num 5, Num 6])])])]"
    by code_simp
  with p have p': "p = [(''id'', Arr [Str ''5'', Str ''6'']), (''mapping'', Bool True),
             (''query'', Obj [(''status'', Num 1), (''_id'', Obj [(''$in'', Arr [Num 5, Num 6])])])]"
    by simp
  have "adapter_find demoService adapter demoDb
      [(''id'', Arr [Str ''5'', Str ''6'']), (''mapping'', Bool True),
       (''query'', Obj [(''status'', Num 1), (''_id'', Obj [(''$in'', Arr [Num 5, Num 6])])])]
    = Inr (Some [Obj [(''_id'', Num 5), (''status'', Num 1), (''title'', Str ''a'')]])"
    unfolding f by code_simp
  with p p' r show ?thesis by blast
qed



section \<open>The log of a call\<close>

lemma logsD:
  "logs P m \<Longrightarrow> m st = (r, st') \<Longrightarrow> \<exists>evs. events st' = events st @ evs \<and> list_all P evs"
  unfolding logs_def by (metis snd_conv)

lemma logs_returnM: "logs P (returnM x)"
  by (simp add: logs_def returnM_def)

lemma logs_throwM: "logs P (throwM e)"
  by (simp add: logs_def throwM_def)

lemma logs_liftM: "logs P (liftM r)"
  by (simp add: logs_def liftM_def)

lemma logs_logM: "P ev \<Longrightarrow> logs P (logM ev)"
  by (simp add: logs_def logM_def)

lemma logs_bindM:
  assumes "logs P m" and "\<And>x. logs P (f x)"
  shows "logs P (bindM m f)"
  unfolding logs_def
proof
  fix st
  obtain r s1 where m: "m st = (r, s1)" by (metis prod.exhaust)
  from logsD [OF assms(1) m] obtain evs1 where
    e1: "events s1 = events st @ evs1" "list_all P evs1" by blast
  show "\<exists>evs. events (snd (bindM m f st)) = events st @ evs \<and> list_all P evs"
  proof (cases r)
    case (Inl e)
    with m e1 show ?thesis by (simp add: bindM_def)
  next
    case (Inr x)
    obtain r2 s2 where f: "f x s1 = (r2, s2)" by (metis prod.exhaust)
    from logsD [OF assms(2) f] obtain evs2 where
      e2: "events s2 = events s1 @ evs2" "list_all P evs2" by blast
    from m Inr f have "snd (bindM m f st) = s2" by (simp add: bindM_def)
    with e1 e2 show ?thesis by simp
  qed
qed

lemma logs_if: "logs P m \<Longrightarrow> logs P n \<Longrightarrow> logs P (if b then m else n)"
  by simp

lemma logs_getAdapter: "(\<And>a. P (Connect a)) \<Longrightarrow> logs P (getAdapter svc ctx)"
  by (auto simp: logs_def getAdapter_def getAdapterSync_def Let_def
      split: option.splits sum.splits)

lemma logs_findM: "P (Find adapter p) \<Longrightarrow> logs P (findM svc adapter p)"
  by (simp add: logs_def findM_def)

lemma logs_validateM: "P (Validate type p) \<Longrightarrow> logs P (validateM svc ctx p type old)"
  by (simp add: logs_def validateM_def)

lemma logs_updateByIdM:
  "P (UpdateById adapter idv p raw) \<Longrightarrow> logs P (updateByIdM svc adapter idv p raw)"
  by (simp add: logs_def updateByIdM_def split: prod.splits)

lemma logs_replaceByIdM:
  "P (ReplaceById adapter idv p) \<Longrightarrow> logs P (replaceByIdM svc adapter idv p)"
  by (simp add: logs_def replaceByIdM_def split: prod.splits)

lemma logs_removeByIdM:
  "P (RemoveById adapter idv) \<Longrightarrow> logs P (removeByIdM svc adapter idv)"
  by (simp add: logs_def removeByIdM_def split: prod.splits)

lemma logs_transformM: "logs P (transformM svc opts adapter result params ctx)"
  by (simp add: transformM_def logs_liftM logs_returnM)

lemma logs_entityChangedM:
  "(\<And>n. P (Broadcast n)) \<Longrightarrow> P (EntityChanged type data) \<Longrightarrow>
     logs P (entityChangedM svc data ctx type)"
  unfolding entityChangedM_def
  by (intro logs_bindM logs_logM logs_returnM logs_throwM)
     (auto intro: logs_logM logs_returnM logs_throwM split: option.splits)

lemma logs_resolveEntities:
  assumes "\<And>a. P (Connect a)" and "\<And>a p. P (Find a p)"
  shows "logs P (resolveEntities svc ctx params opts)"
  unfolding resolveEntities_def
  by (auto intro!: logs_bindM logs_getAdapter logs_findM logs_throwM logs_liftM logs_returnM assms
      split: sum.splits option.splits)

section \<open>Updating and replacing\<close>

lemma stripPrimary_has:
  "\<not> obj_has (stripPrimary svc p) (name (primaryField svc))"
  "\<not> obj_has (stripPrimary svc p) (columnName (primaryField svc))"
  by (auto simp: stripPrimary_def Let_def obj_has_delete)

lemma stripped_simps:
  "stripped svc (Connect a)" "stripped svc (Find a p)" "stripped svc (Validate t p)"
  "stripped svc (Broadcast n)" "stripped svc (EntityChanged t d)"
  "stripped svc (UpdateById a i (stripPrimary svc p) r)"
  "stripped svc (ReplaceById a i (stripPrimary svc p))"
  by (simp_all add: stripped_def stripPrimary_has)

lemma logs_updateEntity: "logs (stripped svc) (updateEntity svc ctx params opts)"
  unfolding updateEntity_def Let_def
  by (intro logs_bindM logs_liftM logs_resolveEntities logs_if logs_validateM logs_returnM
      logs_getAdapter logs_updateByIdM logs_transformM logs_entityChangedM stripped_simps)

lemma logs_replaceEntity: "logs (stripped svc) (replaceEntity svc ctx params opts)"
  unfolding replaceEntity_def Let_def
  by (intro logs_bindM logs_liftM logs_resolveEntities logs_if logs_validateM logs_returnM
      logs_getAdapter logs_replaceByIdM logs_transformM logs_entityChangedM stripped_simps)

text \<open>
  Claim C5. Whatever the caller passes, every \<open>updateById\<close> call that \<open>updateEntity\<close>
  makes on the adapter, and every \<open>replaceById\<close> call that \<open>replaceEntity\<close> makes,
  carries a payload without the primary field's name and without its column name.
\<close>

theorem update_replace_strip_primary:
  "(\<exists>evs. events (snd (updateEntity svc ctx params opts st)) = events st @ evs
          \<and> list_all (stripped svc) evs)
   \<and> (\<exists>evs. events (snd (replaceEntity svc ctx params opts st)) = events st @ evs
          \<and> list_all (stripped svc) evs)"
  using logs_updateEntity [of svc ctx params opts] logs_replaceEntity [of svc ctx params opts]
  unfolding logs_def by blast

theorem update_replace_strip_primary_witness:
  "events (snd (updateEntity demoService Null
       [(''id'', Str ''5''), (''_id'', Num 9), (''title'', Str ''z'')] plain (initialState demoDb)))
   = [Connect 0,
      Find 0 [(''id'', Str ''5''), (''_id'', Num 9), (''title'', Str ''z''),
              (''query'', Obj [(''status'', Num 1), (''_id'', Num 5)])],
      Validate ''update'' [(''id'', Str ''5''), (''_id'', Num 9), (''title'', Str ''z'')],
      UpdateById 0 (Num 5) [(''title'', Str ''z'')] (Some False),
      EntityChanged ''update'' (Obj [(''id'', Str ''5''), (''status'', Num 1), (''title'', Str ''z'')])]
   \<and> stripped demoService (UpdateById 0 (Num 5) [(''title'', Str ''z'')] (Some False))
   \<and> events (snd (replaceEntity demoService Null
       [(''id'', Str ''5''), (''_id'', Num 9), (''title'', Str ''z'')] plain (initialState demoDb)))
   = [Connect 0,
      Find 0 [(''id'', Str ''5''), (''_id'', Num 9), (''title'', Str ''z''),
              (''query'', Obj [(''status'', Num 1), (''_id'', Num 5)])],
      Validate ''replace'' [(''id'', Str ''5''), (''_id'', Num 9), (''title'', Str ''z'')],
      ReplaceById 0 (Num 5) [(''title'', Str ''z'')],
      EntityChanged ''replace'' (Obj [(''id'', Str ''5''), (''title'', Str ''z'')])]"
proof -
  let ?params = "[(''id'', Str ''5''), (''_id'', Num 9), (''title'', Str ''z'')]"
  let ?u = "updateEntity demoService Null ?params plain (initialState demoDb)"
  let ?r = "replaceEntity demoService Null ?params plain (initialState demoDb)"
  have u: "events (snd ?u) = [Connect 0,
      Find 0 [(''id'', Str ''5''), (''_id'', Num 9), (''title'', Str ''z''),
              (''query'', Obj [(''status'', Num 1), (''_id'', Num 5)])],
      Validate ''update'' [(''id'', Str ''5''), (''_id'', Num 9), (''title'', Str ''z'')],
      UpdateById 0 (Num 5) [(''title'', Str ''z'')] (Some False),
      EntityChanged ''update'' (Obj [(''id'', Str ''5''), (''status'', Num 1), (''title'', Str ''z'')])]"
    by code_simp
  have r: "events (snd ?r) = [Connect 0,
      Find 0 [(''id'', Str ''5''), (''_id'', Num 9), (''title'', Str ''z''),
              (''query'', Obj [(''status'', Num 1), (''_id'', Num 5)])],
      Validate ''replace'' [(''id'', Str ''5''), (''_id'', Num 9), (''title'', Str ''z'')],
      ReplaceById 0 (Num 5) [(''title'', Str ''z'')],
      EntityChanged ''replace'' (Obj [(''id'', Str ''5''), (''title'', Str ''z'')])]"
    by code_simp
  from update_replace_strip_primary [of demoService Null ?params plain "initialState demoDb"]
  obtain evs where e: "events (snd ?u) = events (initialState demoDb) @ evs"
    and l: "list_all (stripped demoService) evs" by blast
  from e have "evs = events (snd ?u)" by (simp add: initialState_def)
  with l u have "stripped demoService (UpdateById 0 (Num 5) [(''title'', Str ''z'')] (Some False))"
    by simp
  with u r show ?thesis by simp
qed

section \<open>Validation before a removal\<close>

lemma notWrite_simps:
  "\<not> isWrite (Connect a)" "\<not> isWrite (Find a p)" "\<not> isWrite (Validate t p)"
  "\<not> isWrite (Broadcast n)" "\<not> isWrite (EntityChanged t d)"
  by (simp_all add: isWrite_def)

lemma resolveEntities_db:
  "resolveEntities svc ctx params opts st = (r, st') \<Longrightarrow> db st' = db st"
  by (auto simp: resolveEntities_def bindM_def throwM_def liftM_def returnM_def findM_def
      dest!: getAdapter_db split: sum.splits prod.splits option.splits if_splits)

lemma removeEntity_unfold:
  "removeEntity svc ctx params opts =
     bindM (liftM (getIDFromParams svc params True)) (\<lambda>idv.
     bindM (resolveEntities svc ctx params existing) (\<lambda>entity.
     bindM (getAdapter svc ctx) (\<lambda>adapter.
     bindM (validateM svc ctx (afterResolve svc ctx params existing) ''remove'' Undefined)
       (\<lambda>payload.
          bindM (if softDelete svc
                 then updateByIdM svc adapter (sanitizeID svc idv opts) payload None
                 else removeByIdM svc adapter (sanitizeID svc idv opts)) (\<lambda>w.
          bindM (transformM svc opts adapter entity payload ctx) (\<lambda>entity.
          bindM (entityChangedM svc entity ctx ''remove'') (\<lambda>u.
          returnM idv)))))))"
  by (simp add: removeEntity_def Let_def)

text \<open>
  Claim C10, amended. The events of a \<open>removeEntity\<close> call are a run of connects and
  finds (the existence check, which writes nothing) followed, if the call gets that far,
  by the validation of the payload against type \<open>remove\<close> and only then by anything
  else: no \<open>updateById\<close> or \<open>removeById\<close> comes before the validation, with or
  without soft delete; a call that stops before the validation has failed and left the
  store as it was. When the validation of the payload fails, the call fails, the store is
  unchanged and no write has been made; if the entity was found and the adapter obtained,
  the call fails with the validation's error.
\<close>

theorem removeEntity_validates_before_write:
  assumes "removeEntity svc ctx params opts st = (r, st')"
  shows "\<exists>pre post.
      events st' = events st @ pre @ post
      \<and> list_all (\<lambda>ev. \<not> isWrite ev) pre
      \<and> (list_all (\<lambda>ev. \<exists>a p. ev = Connect a \<or> ev = Find a p) pre)
      \<and> ((post = [] \<and> db st' = db st \<and> (\<exists>e. r = Inl e))
          \<or> (\<exists>rest. post = Validate ''remove'' (afterResolve svc ctx params existing) # rest))
      \<and> ((\<exists>e. validateParams svc ctx (afterResolve svc ctx params existing) ''remove'' Undefined
                 = Inl e)
          \<longrightarrow> (\<exists>e. r = Inl e) \<and> db st' = db st \<and> list_all (\<lambda>ev. \<not> isWrite ev) post)
      \<and> (\<forall>e entity s1 adapter s2.
            resolveEntities svc ctx params existing st = (Inr entity, s1)
            \<and> getAdapter svc ctx s1 = (Inr adapter, s2)
            \<and> validateParams svc ctx (afterResolve svc ctx params existing) ''remove'' Undefined
                 = Inl e
            \<longrightarrow> r = Inl e)"
proof -
  let ?P = "afterResolve svc ctx params existing"
  let ?R = "\<lambda>ev. \<exists>a p. ev = Connect a \<or> ev = Find a p"
  let ?goal = "\<lambda>pre post. events st' = events st @ pre @ post
      \<and> list_all (\<lambda>ev. \<not> isWrite ev) pre
      \<and> list_all ?R pre
      \<and> ((post = [] \<and> db st' = db st \<and> (\<exists>e. r = Inl e))
          \<or> (\<exists>rest. post = Validate ''remove'' ?P # rest))
      \<and> ((\<exists>e. validateParams svc ctx ?P ''remove'' Undefined = Inl e)
          \<longrightarrow> (\<exists>e. r = Inl e) \<and> db st' = db st \<and> list_all (\<lambda>ev. \<not> isWrite ev) post)
      \<and> (\<forall>e entity s1 adapter s2.
            resolveEntities svc ctx params existing st = (Inr entity, s1)
            \<and> getAdapter svc ctx s1 = (Inr adapter, s2)
            \<and> validateParams svc ctx ?P ''remove'' Undefined = Inl e
            \<longrightarrow> r = Inl e)"
  have RW: "list_all ?R evs \<Longrightarrow> list_all (\<lambda>ev. \<not> isWrite ev) evs" for evs
    by (induction evs) (auto simp: isWrite_def)
  note unf = removeEntity_unfold bindM_def liftM_def
  show ?thesis
  proof (cases "getIDFromParams svc params True")
    case (Inl e)
    with assms have "r = Inl e" "st' = st" by (simp_all add: unf)
    moreover have "resolveEntities svc ctx params existing st = (Inl e, st)"
      using Inl by (simp add: resolveEntities_def resolveParams_def throwM_def)
    ultimately have "?goal [] []" by simp
    then show ?thesis by blast
  next
    case gid: (Inr idv)
    obtain r1 s1 where res: "resolveEntities svc ctx params existing st = (r1, s1)"
      by (metis prod.exhaust)
    have "logs ?R (resolveEntities svc ctx params existing)"
      by (rule logs_resolveEntities) blast+
    from logsD [OF this res] obtain ev1 where
      e1: "events s1 = events st @ ev1" "list_all ?R ev1" by blast
    from res have d1: "db s1 = db st" by (rule resolveEntities_db)
    show ?thesis
    proof (cases r1)
      case (Inl e)
      with assms gid res have "r = Inl e" "st' = s1" by (simp_all add: unf)
      with e1 RW [OF e1(2)] d1 res Inl have "?goal ev1 []" by simp
      then show ?thesis by blast
    next
      case ent: (Inr entity)
      obtain r2 s2 where ga: "getAdapter svc ctx s1 = (r2, s2)" by (metis prod.exhaust)
      have "logs ?R (getAdapter svc ctx)"
        by (rule logs_getAdapter) blast
      from logsD [OF this ga] obtain ev2 where
        e2: "events s2 = events s1 @ ev2" "list_all ?R ev2" by blast
      from ga have d2: "db s2 = db s1" by (rule getAdapter_db)
      from e1 e2 have e12: "events s2 = events st @ (ev1 @ ev2)" "list_all ?R (ev1 @ ev2)"
        by simp_all
      note nw = RW [OF e12(2)]
      show ?thesis
      proof (cases r2)
        case (Inl e)
        with assms gid res ent ga have "r = Inl e" "st' = s2" by (simp_all add: unf)
        with e12 nw d1 d2 res ent ga Inl have "?goal (ev1 @ ev2) []" by simp
        then show ?thesis by blast
      next
        case ad: (Inr adapter)
        let ?s3 = "s2\<lparr>events := events s2 @ [Validate ''remove'' ?P]\<rparr>"
        show ?thesis
        proof (cases "validateParams svc ctx ?P ''remove'' Undefined")
          case (Inl e)
          with assms gid res ent ga ad have "r = Inl e" "st' = ?s3"
            by (simp_all add: unf validateM_def)
          with e12 nw d1 d2 res ent ga ad Inl
          have "?goal (ev1 @ ev2) [Validate ''remove'' ?P]"
            by (simp add: notWrite_simps)
          then show ?thesis by blast
        next
          case val: (Inr payload)
          let ?tail = "bindM (if softDelete svc
                 then updateByIdM svc adapter (sanitizeID svc idv opts) payload None
                 else removeByIdM svc adapter (sanitizeID svc idv opts)) (\<lambda>w.
            bindM (transformM svc opts adapter entity payload ctx) (\<lambda>entity.
            bindM (entityChangedM svc entity ctx ''remove'') (\<lambda>u.
            returnM idv)))"
          from assms gid res ent ga ad val have t: "?tail ?s3 = (r, st')"
            by (simp add: unf validateM_def)
          have "logs (\<lambda>ev. True) ?tail"
            by (intro logs_bindM logs_if logs_updateByIdM logs_removeByIdM logs_transformM
                logs_entityChangedM logs_returnM TrueI)
          from logsD [OF this t] obtain ev4 where "events st' = events ?s3 @ ev4" by blast
          with e12 have "events st' = events st @ (ev1 @ ev2) @ (Validate ''remove'' ?P # ev4)"
            by simp
          with e12 nw val have "?goal (ev1 @ ev2) (Validate ''remove'' ?P # ev4)"
            by simp
          then show ?thesis by blast
        qed
      qed
    qed
  qed
qed

text \<open>
  Claim C10, as stated, fails in its first half: \<open>removeEntity\<close> resolves the entity
  first, so the adapter's \<open>find\<close> is called before the payload is validated, and a call
  for an entity that does not exist is never validated: with an invalid payload and an
  unknown id the caller gets \<open>EntityNotFound\<close>, not \<open>ValidationFailed\<close>.
\<close>

theorem removeEntity_validates_counterexample:
  "events (snd (removeEntity demoService Null [(''id'', Str ''5'')] plain (initialState demoDb)))
     = [Connect 0,
        Find 0 [(''id'', Str ''5''), (''query'', Obj [(''status'', Num 1), (''_id'', Num 5)])],
        Validate ''remove'' [(''id'', Str ''5'')],
        RemoveById 0 (Num 5),
        EntityChanged ''remove'' (Obj [(''id'', Str ''5''), (''status'', Num 1), (''title'', Str ''a'')])]
   \<and> validateParams demoService Null [(''id'', Str ''6''), (''invalid'', Num 1)] ''remove'' Undefined
     = Inl (ValidationFailed (Str ''remove''))
   \<and> fst (removeEntity demoService Null [(''id'', Str ''6''), (''invalid'', Num 1)] plain
          (initialState demoDb))
     = Inl (EntityNotFound (Str ''6''))
   \<and> events (snd (removeEntity demoService Null [(''id'', Str ''6''), (''invalid'', Num 1)] plain
          (initialState demoDb)))
     = [Connect 0,
        Find 0 [(''id'', Str ''6''), (''invalid'', Num 1),
                (''query'', Obj [(''status'', Num 1), (''_id'', Num 6)])]]"
  by code_simp

theorem removeEntity_validates_before_write_witness:
  "fst (removeEntity demoService Null [(''id'', Str ''5''), (''invalid'', Num 1)] plain
          (initialState demoDb))
     = Inl (ValidationFailed (Str ''remove''))
   \<and> db (snd (removeEntity demoService Null [(''id'', Str ''5''), (''invalid'', Num 1)] plain
          (initialState demoDb))) = demoDb"
proof -
  let ?params = "[(''id'', Str ''5''), (''invalid'', Num 1)]"
  let ?call = "removeEntity demoService Null ?params plain (initialState demoDb)"
  let ?res = "resolveEntities demoService Null ?params existing (initialState demoDb)"
  let ?ga = "getAdapter demoService Null (snd ?res)"
  let ?e = "ValidationFailed (Str ''remove'')"
  have run: "?call = (fst ?call, snd ?call)" by simp
  have "fst ?res = Inr (Obj [(''_id'', Num 5), (''status'', Num 1), (''title'', Str ''a'')])"
    by code_simp
  then have res: "?res = (Inr (Obj [(''_id'', Num 5), (''status'', Num 1), (''title'', Str ''a'')]),
      snd ?res)" by (metis prod.collapse)
  have "fst ?ga = Inr 0" by code_simp
  then have ga: "?ga = (Inr 0, snd ?ga)" by (metis prod.collapse)
  have val: "validateParams demoService Null (afterResolve demoService Null ?params existing)
       ''remove'' Undefined = Inl ?e"
    by code_simp
  from removeEntity_validates_before_write [OF run] obtain pre post where
    a: "(\<exists>e. validateParams demoService Null (afterResolve demoService Null ?params existing)
                 ''remove'' Undefined = Inl e)
          \<longrightarrow> (\<exists>e. fst ?call = Inl e) \<and> db (snd ?call) = db (initialState demoDb)
              \<and> list_all (\<lambda>ev. \<not> isWrite ev) post"
    and b: "\<forall>e entity s1 adapter s2.
            resolveEntities demoService Null ?params existing (initialState demoDb) = (Inr entity, s1)
            \<and> getAdapter demoService Null s1 = (Inr adapter, s2)
            \<and> validateParams demoService Null (afterResolve demoService Null ?params existing)
                 ''remove'' Undefined = Inl e
            \<longrightarrow> fst ?call = Inl e"
    by blast
  from a val have "db (snd ?call) = db (initialState demoDb)" by blast
  then have d: "db (snd ?call) = demoDb" by (simp add: initialState_def)
  from b res ga val have "fst ?call = Inl ?e" by blast
  with d show ?thesis by simp
qed

end
